theory Spec2Isabelle
  imports Complex_Main "HOL-Library.Sublist"
begin

section \<open>Python values used by the scripts\<close>

text \<open>
  A Python \<^verbatim>\<open>str\<close> is a sequence of Unicode code points. It is modelled as a list of
  code points, so that the no-break space U+00A0 is one element, as in Python.
\<close>

type_synonym pystr = "nat list"

definition lit :: "string \<Rightarrow> pystr" where
  "lit s = map of_char s"

text \<open>
  \<^verbatim>\<open>str.isspace\<close> for one code point: the white space table of CPython
  (bidirectional class WS, B or S, or category Zs). U+00A0 is in it.
\<close>

definition py_isspace :: "nat \<Rightarrow> bool" where
  "py_isspace c \<longleftrightarrow>
     (9 \<le> c \<and> c \<le> 13) \<or> (28 \<le> c \<and> c \<le> 32) \<or> c = 133 \<or> c = 160 \<or> c = 5760 \<or>
     (8192 \<le> c \<and> c \<le> 8202) \<or> c = 8232 \<or> c = 8233 \<or> c = 8239 \<or> c = 8287 \<or> c = 12288"

text \<open>\<^verbatim>\<open>s.strip()\<close>: drop the leading and the trailing white space.\<close>

definition str_strip :: "pystr \<Rightarrow> pystr" where
  "str_strip s = rev (dropWhile py_isspace (rev (dropWhile py_isspace s)))"

text \<open>\<^verbatim>\<open>s.replace("\xa0", "")\<close>: every occurrence of the one code point U+00A0 is removed.\<close>

definition nbsp :: nat where
  "nbsp = 160"

definition str_remove_nbsp :: "pystr \<Rightarrow> pystr" where
  "str_remove_nbsp s = filter (\<lambda>c. c \<noteq> nbsp) s"

text \<open>The header normalisation of \<^verbatim>\<open>get_top_10_states\<close>: \<^verbatim>\<open>col.strip().replace("\xa0", "")\<close>.\<close>

definition normalize_col :: "pystr \<Rightarrow> pystr" where
  "normalize_col col = str_remove_nbsp (str_strip col)"


section \<open>Exceptions, the logger and the written report\<close>

text \<open>
  The exceptions the modelled code can raise. \<open>FileError\<close> stands for whatever opening or
  reading a file raises (\<^verbatim>\<open>OSError\<close>, \<^verbatim>\<open>UnicodeDecodeError\<close>).
\<close>

datatype py_exception =
    FileError | TypeError | AttributeError | IndexError | ValueError
  | ZeroDivisionError | OverflowError

subsection \<open>Floating point\<close>

text \<open>
  A Python \<^verbatim>\<open>float\<close> is an IEEE 754 binary64 number. A finite one is represented by the
  rational number it denotes; negative zero and the two infinities are values of their
  own. NaN is left out: no operation modelled here produces it.
\<close>

datatype pyfloat = Finite rat | NegZero | PosInf | NegInf

text \<open>Rounding to the nearest integer, a tie going to the even one.\<close>

definition round_half_even :: "rat \<Rightarrow> int" where
  "round_half_even x =
     (let f = \<lfloor>x\<rfloor>; g = \<lfloor>2 * x\<rfloor>
      in if g = 2 * f then f
         else if of_int g = 2 * x then (if even f then f else f + 1)
         else f + 1)"

text \<open>
  The binary exponent of a positive \<open>x\<close>, that is \<open>\<lfloor>log\<^sub>2 x\<rfloor>\<close>, kept within the exponents of
  binary64: not below \<open>-1022\<close> (below that the numbers are subnormal and share the exponent
  \<open>-1022\<close>), and counted no further than \<open>1024\<close>, where the overflow is. It is found by
  doubling or halving \<open>x\<close>, at most \<open>fuel\<close> times.
\<close>

fun binade :: "nat \<Rightarrow> rat \<Rightarrow> int \<Rightarrow> int" where
  "binade 0 x e = e"
| "binade (Suc fuel) x e =
     (if x < 1 \<and> - 1022 < e then binade fuel (x * 2) (e - 1)
      else if 2 \<le> x then binade fuel (x / 2) (e + 1)
      else e)"

text \<open>
  The rounding of an exact result to binary64, to nearest and ties to even: the result is
  the nearest multiple of \<open>2\<^bsup>e - 52\<^esup>\<close>, where \<open>e\<close> is the exponent of \<open>x\<close>. A result of
  magnitude \<open>2\<^bsup>1024\<^esup>\<close> or more stands for an overflow.
\<close>

definition round_double :: "rat \<Rightarrow> rat" where
  "round_double x =
     (if x = 0 then 0
      else (let e = binade 1024 \<bar>x\<bar> 0
            in if 52 \<le> e then of_int (round_half_even (x / 2 ^ nat (e - 52))) * 2 ^ nat (e - 52)
               else of_int (round_half_even (x * 2 ^ nat (52 - e))) / 2 ^ nat (52 - e)))"

text \<open>
  The float that an operation with the exact result \<open>x\<close> delivers; \<open>neg\<close> is the sign of
  the result, which a zero and an infinity keep.
\<close>

definition to_float :: "bool \<Rightarrow> rat \<Rightarrow> pyfloat" where
  "to_float neg x =
     (let r = round_double x
      in if 2 ^ 1024 \<le> \<bar>r\<bar> then (if neg then NegInf else PosInf)
         else if r = 0 \<and> neg then NegZero
         else Finite r)"

text \<open>
  \<^verbatim>\<open>a / b\<close> on two \<^verbatim>\<open>int\<close>: the correctly rounded quotient. It raises
  \<^verbatim>\<open>ZeroDivisionError\<close> for \<open>b = 0\<close> and \<^verbatim>\<open>OverflowError\<close> when the quotient is too large
  for a float.
\<close>

definition py_truediv :: "int \<Rightarrow> int \<Rightarrow> py_exception + pyfloat" where
  "py_truediv a b =
     (if b = 0 then Inl ZeroDivisionError
      else
        (case to_float ((a < 0) \<noteq> (b < 0)) (of_int a / of_int b) of
           PosInf \<Rightarrow> Inl OverflowError
         | NegInf \<Rightarrow> Inl OverflowError
         | q \<Rightarrow> Inr q))"

text \<open>
  \<^verbatim>\<open>x * 100\<close> on a \<^verbatim>\<open>float\<close>: the \<^verbatim>\<open>int\<close> 100 is the float 100.0, and the product is
  rounded; an overflow gives an infinity.
\<close>

fun float_mul_100 :: "pyfloat \<Rightarrow> pyfloat" where
  "float_mul_100 (Finite x) = to_float (x < 0) (x * 100)"
| "float_mul_100 NegZero = NegZero"
| "float_mul_100 PosInf = PosInf"
| "float_mul_100 NegInf = NegInf"

subsection \<open>Cells, log records and report lines\<close>

text \<open>
  A cell value of a worksheet as \<^verbatim>\<open>openpyxl\<close> returns it with \<^verbatim>\<open>values_only=True\<close>.
  \<^verbatim>\<open>bool\<close>, \<^verbatim>\<open>int\<close> and \<^verbatim>\<open>float\<close> cells are represented by their numeric value
  (\<open>CNum\<close>): Python compares and hashes them by value (\<^verbatim>\<open>True == 1 == 1.0\<close>), and every
  test the code makes on a cell (truth value, \<^verbatim>\<open>isinstance(price, (int, float))\<close>,
  \<^verbatim>\<open>>\<close>) depends on that value alone; the comparison of an \<^verbatim>\<open>int\<close> with a finite
  \<^verbatim>\<open>float\<close> is exact in Python, so \<open><\<close> on \<open>rat\<close> is what the code computes. \<open>CDate\<close> is a date, time or datetime (always
  true), \<open>CDuration\<close> a timedelta (false when zero).
\<close>

datatype cell = CNone | CNum rat | CStr pystr | CDate nat | CDuration rat

text \<open>
  One call of the logger. The message texts are f-strings over Python's \<^verbatim>\<open>repr\<close>; the
  model keeps which message it is, its level and its arguments.
\<close>

datatype log_event =
    Error_csv_missing_state "pystr list"
  | Error_no_state_data
  | Error_processing_csv py_exception
  | Info_processed_csv
  | Error_fewer_lines int
  | Error_processing_text py_exception
  | Info_processed_text
  | Error_missing_columns "cell list"
  | Error_processing_excel py_exception
  | Info_processed_excel

text \<open>
  One \<^verbatim>\<open>file.write\<close> call of a report: a fixed line (given without its final newline),
  or a data line, kept as the values that the format specification pads and rounds
  (\<^verbatim>\<open>:<10\<close>, \<^verbatim>\<open>:.2f\<close>); the characters of a formatted number are not modelled.
\<close>

datatype report_line =
    Text string
  | Row_csv pystr int pyfloat
  | Row_excel cell cell cell rat

text \<open>
  What a run of one of the \<^verbatim>\<open>process_*_file\<close> functions leaves behind: the content of
  the output file (\<open>None\<close> when it was not created), the exception that left the function,
  if any, and the calls of the logger in order.
\<close>

record run =
  written :: "report_line list option"
  raised :: "py_exception option"
  logged :: "log_event list"

section \<open>collections.Counter\<close>

text \<open>
  A \<^verbatim>\<open>Counter\<close> is a \<^verbatim>\<open>dict\<close>, which keeps its keys in the order of their first
  insertion: an association list with distinct keys. \<^verbatim>\<open>c[k] += 1\<close> reads 0 for a
  missing key, and a new key goes to the end.
\<close>

type_synonym 'k counter = "('k \<times> int) list"

fun counter_incr :: "'k \<Rightarrow> 'k counter \<Rightarrow> 'k counter" where
  "counter_incr k [] = [(k, 1)]"
| "counter_incr k ((k', c) # m) =
     (if k' = k then (k', c + 1) # m else (k', c) # counter_incr k m)"

text \<open>\<^verbatim>\<open>Counter.update(iterable)\<close>: one increment for each element, in order.\<close>

definition counter_update :: "'k counter \<Rightarrow> 'k list \<Rightarrow> 'k counter" where
  "counter_update m ws = foldl (\<lambda>m w. counter_incr w m) m ws"

text \<open>
  \<^verbatim>\<open>Counter.most_common(n)\<close> is \<^verbatim>\<open>heapq.nlargest(n, self.items(), key=itemgetter(1))\<close>,
  which is \<^verbatim>\<open>sorted(items, key=itemgetter(1), reverse=True)[:n]\<close>: a stable sort by
  descending count, cut after \<open>n\<close> entries (none for \<open>n \<le> 0\<close>).
\<close>

definition most_common :: "int \<Rightarrow> 'k counter \<Rightarrow> ('k \<times> int) list" where
  "most_common n m = take (nat n) (sort_key (\<lambda>(k, c). - c) m)"

section \<open>process_csv.py\<close>

text \<open>
  The CSV file as \<^verbatim>\<open>csv.reader\<close> delivers it: the list of its rows, each a list of
  strings; \<open>None\<close> when opening or decoding the file raises.
\<close>

type_synonym csv_source = "pystr list list option"

text \<open>
  The dictionary \<^verbatim>\<open>csv.DictReader\<close> builds for one row: \<^verbatim>\<open>dict(zip(fieldnames, row))\<close>
  (for a repeated field name the last column wins), then every field name beyond the
  row's length is set to \<^verbatim>\<open>None\<close>. The entry under the key \<^verbatim>\<open>None\<close> for surplus values
  is left out: no string key reads it.
\<close>

definition dictreader_row :: "pystr list \<Rightarrow> pystr list \<Rightarrow> (pystr \<rightharpoonup> pystr option)" where
  "dictreader_row fieldnames row =
     map_of (rev (zip fieldnames (map Some row))) ++
     map_of (map (\<lambda>k. (k, None)) (drop (length row) fieldnames))"

text \<open>\<^verbatim>\<open>row.get("State", "").strip()\<close>; \<^verbatim>\<open>None.strip()\<close> raises \<^verbatim>\<open>AttributeError\<close>.\<close>

definition row_state :: "(pystr \<rightharpoonup> pystr option) \<Rightarrow> py_exception + pystr" where
  "row_state d =
     (case d (lit ''State'') of
        None \<Rightarrow> Inr (str_strip [])
      | Some None \<Rightarrow> Inl AttributeError
      | Some (Some v) \<Rightarrow> Inr (str_strip v))"

text \<open>The loop over the reader; \<^verbatim>\<open>DictReader\<close> skips the rows that are \<^verbatim>\<open>[]\<close>.\<close>

fun count_states ::
  "pystr list \<Rightarrow> pystr list list \<Rightarrow> pystr counter \<Rightarrow> py_exception + pystr counter" where
  "count_states fieldnames [] state_counts = Inr state_counts"
| "count_states fieldnames (row # rows) state_counts =
     (if row = [] then count_states fieldnames rows state_counts
      else case row_state (dictreader_row fieldnames row) of
             Inl e \<Rightarrow> Inl e
           | Inr state \<Rightarrow>
               count_states fieldnames rows
                 (if state \<noteq> [] then counter_incr state state_counts else state_counts))"

text \<open>The list comprehension \<^verbatim>\<open>[(state, count, (count / total_failures) * 100) ...]\<close>.\<close>

fun percentages ::
  "int \<Rightarrow> (pystr \<times> int) list \<Rightarrow> py_exception + (pystr \<times> int \<times> pyfloat) list" where
  "percentages total_failures [] = Inr []"
| "percentages total_failures ((state, count) # rest) =
     (case py_truediv count total_failures of
        Inl e \<Rightarrow> Inl e
      | Inr q \<Rightarrow>
          (case percentages total_failures rest of
             Inl e \<Rightarrow> Inl e
           | Inr ps \<Rightarrow> Inr ((state, count, float_mul_100 q) # ps)))"

text \<open>
  The body of the \<^verbatim>\<open>try\<close> of \<^verbatim>\<open>get_top_10_states\<close>: the value returned with the logger
  calls made, or the exception raised. On an empty file \<^verbatim>\<open>fieldnames\<close> is \<^verbatim>\<open>None\<close> and
  the comprehension over it raises \<^verbatim>\<open>TypeError\<close>.
\<close>

definition get_top_10_states_try ::
  "csv_source \<Rightarrow> py_exception + ((pystr \<times> int \<times> pyfloat) list \<times> log_event list)" where
  "get_top_10_states_try file =
     (case file of
        None \<Rightarrow> Inl FileError
      | Some [] \<Rightarrow> Inl TypeError
      | Some (header # rows) \<Rightarrow>
          (let fieldnames = map normalize_col header in
           if lit ''State'' \<notin> set fieldnames
           then Inr ([], [Error_csv_missing_state fieldnames])
           else
             (case count_states fieldnames rows [] of
                Inl e \<Rightarrow> Inl e
              | Inr state_counts \<Rightarrow>
                  if state_counts = [] then Inr ([], [Error_no_state_data])
                  else
                    (let total_failures = sum_list (map snd state_counts);
                         top_10 = most_common 10 state_counts
                     in case percentages total_failures top_10 of
                          Inl e \<Rightarrow> Inl e
                        | Inr top_10_percentages \<Rightarrow> Inr (top_10_percentages, [])))))"

text \<open>\<^verbatim>\<open>except Exception as e\<close>: the error is logged and the empty list returned.\<close>

definition get_top_10_states ::
  "csv_source \<Rightarrow> (pystr \<times> int \<times> pyfloat) list \<times> log_event list" where
  "get_top_10_states file =
     (case get_top_10_states_try file of
        Inl e \<Rightarrow> ([], [Error_processing_csv e])
      | Inr r \<Rightarrow> r)"

definition csv_report_head :: "report_line list" where
  "csv_report_head =
     [Text ''Top 10 States with Most Failed Banks:'',
      Text (replicate 40 CHR ''=''),
      Text ''State     Count     Percentage'',
      Text (replicate 40 CHR ''='')]"

text \<open>
  \<^verbatim>\<open>process_csv_file\<close>. \<open>out_ok\<close> says whether \<^verbatim>\<open>output_file.open('w')\<close> succeeds (the
  function does not create the folder); when it does not, the exception leaves the
  function. The file is opened and the four head lines are written whatever
  \<^verbatim>\<open>get_top_10_states\<close> returned.
\<close>

definition process_csv_file :: "bool \<Rightarrow> csv_source \<Rightarrow> run" where
  "process_csv_file out_ok input_file =
     (let (top_10_states, logs) = get_top_10_states input_file in
      if \<not> out_ok then \<lparr>written = None, raised = Some FileError, logged = logs\<rparr>
      else \<lparr>written = Some (csv_report_head @
                              map (\<lambda>(state, count, percentage). Row_csv state count percentage)
                                top_10_states),
            raised = None,
            logged = logs @ [Info_processed_csv]\<rparr>)"

section \<open>process_text.py\<close>

text \<open>
  \<^verbatim>\<open>xs[start:stop]\<close> on a list of length \<open>n\<close>: a negative bound counts from the end, both
  bounds are clamped to \<open>0..n\<close>, and the items at the indices from the lower bound up to,
  not including, the upper bound are copied. \<open>slice_range\<close> is that list of indices.
\<close>

definition slice_range :: "nat \<Rightarrow> int \<Rightarrow> int \<Rightarrow> nat list" where
  "slice_range n start stop =
     (let lo = (if start < 0 then max (start + int n) 0 else min start (int n));
          hi = (if stop < 0 then max (stop + int n) 0 else min stop (int n))
      in [nat lo ..< nat hi])"

definition py_slice :: "'a list \<Rightarrow> int \<Rightarrow> int \<Rightarrow> 'a list" where
  "py_slice xs start stop = map (\<lambda>i. xs ! i) (slice_range (length xs) start stop)"

text \<open>\<^verbatim>\<open>sep.join(xs)\<close>.\<close>

fun str_join :: "pystr \<Rightarrow> pystr list \<Rightarrow> pystr" where
  "str_join sep [] = []"
| "str_join sep [x] = x"
| "str_join sep (x # y # ys) = x @ sep @ str_join sep (y # ys)"

text \<open>
  The tables of the Unicode database that the text script reads through the library are
  parameters of the model: \<^verbatim>\<open>str.lower\<close> on a whole string (it is not character-wise:
  the final sigma), and \<^verbatim>\<open>str.isalnum\<close> on a code point beyond ASCII.
\<close>

record unicode_db =
  str_lower :: "pystr \<Rightarrow> pystr"
  isalnum_beyond_ascii :: "nat \<Rightarrow> bool"

definition is_ascii_letter :: "nat \<Rightarrow> bool" where
  "is_ascii_letter c \<longleftrightarrow> (65 \<le> c \<and> c \<le> 90) \<or> (97 \<le> c \<and> c \<le> 122)"

text \<open>\<^verbatim>\<open>\w\<close> of a \<^verbatim>\<open>str\<close> pattern: alphanumeric or the underscore.\<close>

definition is_word_char :: "unicode_db \<Rightarrow> nat \<Rightarrow> bool" where
  "is_word_char U c \<longleftrightarrow>
     (if c < 128 then is_ascii_letter c \<or> (48 \<le> c \<and> c \<le> 57) \<or> c = 95
      else isalnum_beyond_ascii U c)"

text \<open>
  \<^verbatim>\<open>re.findall(r'\b[a-zA-Z]+\b', s)\<close>, scanning from the left. A match starts at an
  ASCII letter that follows no word character, takes the whole run of ASCII letters, and
  succeeds when no word character follows the run; a run that fails holds no other
  match, since inside it there is no word boundary. \<open>prev\<close> says that the code point
  before is a word character, \<open>run\<close> is the open match, reversed.
\<close>

fun findall_words :: "unicode_db \<Rightarrow> bool \<Rightarrow> pystr option \<Rightarrow> pystr \<Rightarrow> pystr list" where
  "findall_words U prev None [] = []"
| "findall_words U prev (Some run) [] = [rev run]"
| "findall_words U prev None (c # cs) =
     (if is_ascii_letter c \<and> \<not> prev then findall_words U True (Some [c]) cs
      else findall_words U (is_word_char U c) None cs)"
| "findall_words U prev (Some run) (c # cs) =
     (if is_ascii_letter c then findall_words U True (Some (c # run)) cs
      else if is_word_char U c then findall_words U True None cs
      else rev run # findall_words U False None cs)"

text \<open>
  The text file as \<^verbatim>\<open>file.readlines()\<close> delivers it: its lines, each with its line end;
  \<open>None\<close> when opening or decoding the file raises.
\<close>

type_synonym text_source = "pystr list option"

text \<open>The body of the \<^verbatim>\<open>try\<close> of \<^verbatim>\<open>count_top_words\<close>.\<close>

definition count_top_words_try ::
  "unicode_db \<Rightarrow> text_source \<Rightarrow> int \<Rightarrow> int \<Rightarrow> int \<Rightarrow>
     py_exception + ((pystr \<times> int) list \<times> log_event list)" where
  "count_top_words_try U file top_n skip_lines stop_line =
     (case file of
        None \<Rightarrow> Inl FileError
      | Some lines \<Rightarrow>
          if int (length lines) < skip_lines then Inr ([], [Error_fewer_lines skip_lines])
          else
            (let content = str_join (lit '' '') (py_slice lines skip_lines stop_line);
                 words = findall_words U False None (str_lower U content);
                 word_counts = counter_update [] words
             in Inr (most_common top_n word_counts, [])))"

definition count_top_words ::
  "unicode_db \<Rightarrow> text_source \<Rightarrow> int \<Rightarrow> int \<Rightarrow> int \<Rightarrow> (pystr \<times> int) list \<times> log_event list" where
  "count_top_words U file top_n skip_lines stop_line =
     (case count_top_words_try U file top_n skip_lines stop_line of
        Inl e \<Rightarrow> ([], [Error_processing_text e])
      | Inr r \<Rightarrow> r)"

text \<open>The tables restricted to ASCII text, for the examples.\<close>

definition ascii_db :: unicode_db where
  "ascii_db =
     \<lparr>str_lower = map (\<lambda>c. if 65 \<le> c \<and> c \<le> 90 then c + 32 else c),
      isalnum_beyond_ascii = (\<lambda>c. False)\<rparr>"

section \<open>process_excel.py\<close>

text \<open>Python's truth value of a cell value.\<close>

fun py_truthy :: "cell \<Rightarrow> bool" where
  "py_truthy CNone = False"
| "py_truthy (CNum x) = (x \<noteq> 0)"
| "py_truthy (CStr s) = (s \<noteq> [])"
| "py_truthy (CDate t) = True"
| "py_truthy (CDuration d) = (d \<noteq> 0)"

text \<open>\<^verbatim>\<open>xs.index(x)\<close>: the first position of \<open>x\<close>; \<open>None\<close> stands for \<^verbatim>\<open>ValueError\<close>.\<close>

fun list_index :: "'a list \<Rightarrow> 'a \<Rightarrow> nat option" where
  "list_index [] x = None"
| "list_index (y # ys) x = (if y = x then Some 0 else map_option Suc (list_index ys x))"

text \<open>\<^verbatim>\<open>row[i]\<close> for \<open>i \<ge> 0\<close>: \<open>None\<close> stands for \<^verbatim>\<open>IndexError\<close>.\<close>

definition py_index :: "'a list \<Rightarrow> nat \<Rightarrow> 'a option" where
  "py_index xs i = (if i < length xs then Some (xs ! i) else None)"

text \<open>
  \<^verbatim>\<open>rep_office_highest\<close>: a \<^verbatim>\<open>dict\<close> from a rep_office to the tuple
  \<^verbatim>\<open>(nsn, common_name, price)\<close>, in insertion order. \<^verbatim>\<open>d[k] = v\<close> keeps the place of a
  key that is there and puts a new key at the end.
\<close>

type_synonym highest = "(cell \<times> (cell \<times> cell \<times> rat)) list"

fun dict_set :: "'k \<Rightarrow> 'v \<Rightarrow> ('k \<times> 'v) list \<Rightarrow> ('k \<times> 'v) list" where
  "dict_set k v [] = [(k, v)]"
| "dict_set k v ((k', v') # d) = (if k' = k then (k', v) # d else (k', v') # dict_set k v d)"

text \<open>
  The four reads at the top of the loop body, \<^verbatim>\<open>row[rep_office_idx - 1]\<close> and so on, as
  \<open>(rep_office, nsn, common_name, price)\<close>; \<open>None\<close> stands for \<^verbatim>\<open>IndexError\<close>.
\<close>

definition row_cells ::
  "nat \<Rightarrow> nat \<Rightarrow> nat \<Rightarrow> nat \<Rightarrow> cell list \<Rightarrow> (cell \<times> cell \<times> cell \<times> cell) option" where
  "row_cells rep_office_idx nsn_idx common_name_idx price_idx row =
     (case (py_index row (rep_office_idx - 1), py_index row (nsn_idx - 1),
            py_index row (common_name_idx - 1), py_index row (price_idx - 1)) of
        (Some rep_office, Some nsn, Some common_name, Some price) \<Rightarrow>
          Some (rep_office, nsn, common_name, price)
      | _ \<Rightarrow> None)"

text \<open>
  The validity test and the update of the loop body. \<^verbatim>\<open>isinstance(price, (int, float))\<close>
  holds for the numeric cells.
\<close>

definition update_highest :: "cell \<Rightarrow> cell \<Rightarrow> cell \<Rightarrow> cell \<Rightarrow> highest \<Rightarrow> highest" where
  "update_highest rep_office nsn common_name price rep_office_highest =
     (if py_truthy rep_office \<and> py_truthy nsn \<and> py_truthy common_name
      then
        (case price of
           CNum p \<Rightarrow>
             (case map_of rep_office_highest rep_office of
                None \<Rightarrow> dict_set rep_office (nsn, common_name, p) rep_office_highest
              | Some (nsn0, common_name0, p0) \<Rightarrow>
                  if p0 < p then dict_set rep_office (nsn, common_name, p) rep_office_highest
                  else rep_office_highest)
         | _ \<Rightarrow> rep_office_highest)
      else rep_office_highest)"

fun highest_loop ::
  "nat \<Rightarrow> nat \<Rightarrow> nat \<Rightarrow> nat \<Rightarrow> cell list list \<Rightarrow> highest \<Rightarrow> py_exception + highest" where
  "highest_loop rep_office_idx nsn_idx common_name_idx price_idx [] d = Inr d"
| "highest_loop rep_office_idx nsn_idx common_name_idx price_idx (row # rows) d =
     (case row_cells rep_office_idx nsn_idx common_name_idx price_idx row of
        None \<Rightarrow> Inl IndexError
      | Some (rep_office, nsn, common_name, price) \<Rightarrow>
          highest_loop rep_office_idx nsn_idx common_name_idx price_idx rows
            (update_highest rep_office nsn common_name price d))"

text \<open>
  The active sheet of the workbook: its first row and the rows after it, as cell values;
  \<open>None\<close> when loading the workbook raises.
\<close>

type_synonym excel_source = "(cell list \<times> cell list list) option"

text \<open>The body of the \<^verbatim>\<open>try\<close> of \<^verbatim>\<open>find_highest_price_nsn\<close>.\<close>

definition find_highest_price_nsn_try ::
  "excel_source \<Rightarrow> py_exception + (highest \<times> log_event list)" where
  "find_highest_price_nsn_try file =
     (case file of
        None \<Rightarrow> Inl FileError
      | Some (headers, rows) \<Rightarrow>
          if \<not> {CStr (lit ''NSN''), CStr (lit ''rep_office''), CStr (lit ''common_name''),
                 CStr (lit ''Price'')} \<subseteq> set headers
          then Inr ([], [Error_missing_columns headers])
          else
            (case (list_index headers (CStr (lit ''NSN'')),
                   list_index headers (CStr (lit ''rep_office'')),
                   list_index headers (CStr (lit ''common_name'')),
                   list_index headers (CStr (lit ''Price''))) of
               (Some n, Some r, Some c, Some p) \<Rightarrow>
                 (let nsn_idx = n + 1; rep_office_idx = r + 1;
                      common_name_idx = c + 1; price_idx = p + 1
                  in case highest_loop rep_office_idx nsn_idx common_name_idx price_idx rows [] of
                       Inl e \<Rightarrow> Inl e
                     | Inr rep_office_highest \<Rightarrow> Inr (rep_office_highest, []))
             | _ \<Rightarrow> Inl ValueError))"

definition find_highest_price_nsn :: "excel_source \<Rightarrow> highest \<times> log_event list" where
  "find_highest_price_nsn file =
     (case find_highest_price_nsn_try file of
        Inl e \<Rightarrow> ([], [Error_processing_excel e])
      | Inr r \<Rightarrow> r)"

definition excel_report_head :: "report_line list" where
  "excel_report_head =
     [Text ''Highest Price NSN per rep_office:'',
      Text (replicate 80 CHR ''=''),
      Text ''Rep Office          NSN                 Common Name         Price'',
      Text (replicate 80 CHR ''='')]"

text \<open>
  Whether the replacement field \<^verbatim>\<open>{v:<20}\<close> of an f-string succeeds on a cell value. A
  string and a number are padded, a date, time or datetime takes the specification as its
  \<^verbatim>\<open>strftime\<close> pattern; \<^verbatim>\<open>None\<close> and a timedelta have no \<^verbatim>\<open>__format__\<close> of their own and
  raise \<^verbatim>\<open>TypeError\<close> on a specification that is not empty. \<^verbatim>\<open>{price:.2f}\<close> succeeds on
  every number.
\<close>

fun format_ljust_ok :: "cell \<Rightarrow> bool" where
  "format_ljust_ok CNone = False"
| "format_ljust_ok (CNum x) = True"
| "format_ljust_ok (CStr s) = True"
| "format_ljust_ok (CDate t) = True"
| "format_ljust_ok (CDuration d) = False"

text \<open>
  The loop over \<^verbatim>\<open>highest_prices.items()\<close>, in the order of the dictionary: the lines
  written, and the exception that ends the loop, if any. The f-string is evaluated before
  \<^verbatim>\<open>file.write\<close> is called, so the item that raises writes nothing.
\<close>

fun write_excel_rows :: "highest \<Rightarrow> report_line list \<times> py_exception option" where
  "write_excel_rows [] = ([], None)"
| "write_excel_rows ((rep_office, nsn, common_name, price) # rest) =
     (if format_ljust_ok rep_office \<and> format_ljust_ok nsn \<and> format_ljust_ok common_name
      then (let (ls, e) = write_excel_rows rest
            in (Row_excel rep_office nsn common_name price # ls, e))
      else ([], Some TypeError))"

text \<open>
  \<^verbatim>\<open>process_excel_file\<close>. \<open>out_ok\<close> says whether the output file can be opened. An
  exception in the loop leaves the function: the \<^verbatim>\<open>with\<close> block closes the file with
  what was written so far, and the last call of the logger is not reached.
\<close>

definition process_excel_file :: "bool \<Rightarrow> excel_source \<Rightarrow> run" where
  "process_excel_file out_ok input_file =
     (let (highest_prices, logs) = find_highest_price_nsn input_file in
      if \<not> out_ok then \<lparr>written = None, raised = Some FileError, logged = logs\<rparr>
      else
        (let (ls, e) = write_excel_rows highest_prices
         in \<lparr>written = Some (excel_report_head @ ls),
             raised = e,
             logged = (if e = None then logs @ [Info_processed_excel] else logs)\<rparr>))"

subsection \<open>Extremum mode in the words of the specification\<close>

text \<open>
  The rule for the slot of one rep_office, as the specification words it: the first
  observation takes the empty slot; after that the stored tuple is replaced if and only
  if the new price is strictly greater.
\<close>

definition slot_rule ::
  "(cell \<times> cell \<times> rat) option \<Rightarrow> cell \<times> cell \<times> rat \<Rightarrow> (cell \<times> cell \<times> rat) option" where
  "slot_rule stored new =
     (case stored of
        None \<Rightarrow> Some new
      | Some old \<Rightarrow> if snd (snd old) < snd (snd new) then Some new else Some old)"

text \<open>
  The valid observations of the rep_office \<open>k\<close> among the rows, in the order of the rows:
  a row is valid when rep_office, nsn and common_name are true and the price is a number.
\<close>

fun observations :: "cell \<Rightarrow> nat \<Rightarrow> nat \<Rightarrow> nat \<Rightarrow> nat \<Rightarrow> cell list list \<Rightarrow> (cell \<times> cell \<times> rat) list" where
  "observations k rep_office_idx nsn_idx common_name_idx price_idx [] = []"
| "observations k rep_office_idx nsn_idx common_name_idx price_idx (row # rows) =
     (case row_cells rep_office_idx nsn_idx common_name_idx price_idx row of
        Some (rep_office, nsn, common_name, CNum p) \<Rightarrow>
          if rep_office = k \<and> py_truthy rep_office \<and> py_truthy nsn \<and> py_truthy common_name
          then (nsn, common_name, p) #
                 observations k rep_office_idx nsn_idx common_name_idx price_idx rows
          else observations k rep_office_idx nsn_idx common_name_idx price_idx rows
      | _ \<Rightarrow> observations k rep_office_idx nsn_idx common_name_idx price_idx rows)"



subsection \<open>Inputs of the examples\<close>

text \<open>
  Rows of a sheet whose columns are NSN, rep_office, common_name and Price: office A at the
  prices 10, 25 and 25 again, office B at the price 5.
\<close>

definition office_rows :: "cell list list" where
  "office_rows =
     [[CNum 1, CStr (lit ''A''), CStr (lit ''x''), CNum 10],
      [CNum 2, CStr (lit ''A''), CStr (lit ''y''), CNum 25],
      [CNum 3, CStr (lit ''B''), CStr (lit ''z''), CNum 5],
      [CNum 4, CStr (lit ''A''), CStr (lit ''w''), CNum 25]]"

text \<open>A workbook in which office B comes before office A.\<close>

definition office_header :: "cell list" where
  "office_header =
     [CStr (lit ''NSN''), CStr (lit ''rep_office''), CStr (lit ''common_name''),
      CStr (lit ''Price'')]"

definition rows_b_a :: "cell list list" where
  "rows_b_a =
     [[CNum 3, CStr (lit ''B''), CStr (lit ''z''), CNum 5],
      [CNum 1, CStr (lit ''A''), CStr (lit ''x''), CNum 10]]"

definition workbook_b_a :: excel_source where
  "workbook_b_a = Some (office_header, rows_b_a)"

text \<open>A file of 25 rows: state A seven times, state B eighteen times.\<close>

definition seven_of_25 :: "pystr list list" where
  "seven_of_25 =
     [[lit ''State''],
      [lit ''A''], [lit ''A''], [lit ''A''], [lit ''A''], [lit ''A''], [lit ''A''], [lit ''A''],
      [lit ''B''], [lit ''B''], [lit ''B''], [lit ''B''], [lit ''B''], [lit ''B''],
      [lit ''B''], [lit ''B''], [lit ''B''], [lit ''B''], [lit ''B''], [lit ''B''],
      [lit ''B''], [lit ''B''], [lit ''B''], [lit ''B''], [lit ''B''], [lit ''B'']]"

text \<open>An input with eleven states, one of them twice.\<close>

definition states_11 :: "pystr list list" where
  "states_11 = [[lit ''State''], [lit ''A''], [lit ''B''], [lit ''C''], [lit ''D''], [lit ''E''],
     [lit ''F''], [lit ''G''], [lit ''H''], [lit ''I''], [lit ''J''], [lit ''K''], [lit ''A'']]"

section \<open>Header normalisation\<close>

lemma dropWhile_filter_fixed:
  assumes "dropWhile P xs = xs" and "\<And>c. \<not> Q c \<Longrightarrow> P c"
  shows "dropWhile P (filter Q xs) = filter Q xs"
proof (cases xs)
  case Nil
  then show ?thesis by simp
next
  case (Cons x ys)
  with assms(1) have "\<not> P x"
    by (metis dropWhile_eq_Cons_conv)
  with assms(2) have "Q x" by blast
  with Cons \<open>\<not> P x\<close> show ?thesis by simp
qed

lemma str_strip_fixedI:
  "dropWhile py_isspace xs = xs \<Longrightarrow> dropWhile py_isspace (rev xs) = rev xs \<Longrightarrow> str_strip xs = xs"
  by (simp add: str_strip_def)

lemma strip_front_fixed: "dropWhile py_isspace (str_strip s) = str_strip s"
proof (cases "str_strip s")
  case Nil
  then show ?thesis by simp
next
  case (Cons z zs)
  let ?t = "dropWhile py_isspace s"
  have "rev ?t = takeWhile py_isspace (rev ?t) @ rev (str_strip s)"
    by (simp add: str_strip_def)
  then have "?t = str_strip s @ rev (takeWhile py_isspace (rev ?t))"
    by (metis rev_append rev_rev_ident)
  with Cons have t: "?t = z # zs @ rev (takeWhile py_isspace (rev ?t))"
    by simp
  then have "?t \<noteq> []" and "hd ?t = z"
    by (metis list.distinct(1), metis list.sel(1))
  then have "\<not> py_isspace z"
    using hd_dropWhile [of py_isspace s] by simp
  with Cons show ?thesis by simp
qed

lemma strip_back_fixed: "dropWhile py_isspace (rev (str_strip s)) = rev (str_strip s)"
  by (simp add: str_strip_def)

text \<open>
  C9. Field-name normalisation (strip, then remove every U+00A0) is idempotent: applied
  twice it gives what it gives applied once, for every string.
\<close>

theorem normalize_col_idempotent: "normalize_col (normalize_col s) = normalize_col s"
proof -
  let ?t = "str_strip s"
  let ?u = "filter (\<lambda>c. c \<noteq> nbsp) ?t"
  have sp: "\<And>c. \<not> c \<noteq> nbsp \<Longrightarrow> py_isspace c"
    by (simp add: nbsp_def py_isspace_def)
  have front: "dropWhile py_isspace ?u = ?u"
    by (rule dropWhile_filter_fixed [OF strip_front_fixed sp])
  have "dropWhile py_isspace (filter (\<lambda>c. c \<noteq> nbsp) (rev ?t)) = filter (\<lambda>c. c \<noteq> nbsp) (rev ?t)"
    by (rule dropWhile_filter_fixed [OF strip_back_fixed sp])
  then have rear: "dropWhile py_isspace (rev ?u) = rev ?u"
    by (simp add: rev_filter)
  have "str_strip ?u = ?u"
    by (rule str_strip_fixedI [OF front rear])
  then show ?thesis
    by (simp add: normalize_col_def str_remove_nbsp_def)
qed


section \<open>The CSV pipeline\<close>

lemma py_truediv_nonzero: "b \<noteq> 0 \<Longrightarrow> py_truediv a b \<noteq> Inl ZeroDivisionError"
  by (simp add: py_truediv_def split: pyfloat.splits)

lemma percentages_total_nonzero:
  "t \<noteq> 0 \<Longrightarrow> percentages t xs \<noteq> Inl ZeroDivisionError"
proof (induction xs)
  case Nil
  then show ?case by simp
next
  case (Cons x xs)
  obtain s c where x: "x = (s, c)" by (cases x)
  from Cons py_truediv_nonzero [of t c] show ?case
    unfolding x by (auto split: sum.splits)
qed

lemma percentages_mem:
  "percentages t xs = Inr ps \<Longrightarrow> (s, c, p) \<in> set ps \<Longrightarrow>
   (s, c) \<in> set xs \<and> (\<exists>q. py_truediv c t = Inr q \<and> p = float_mul_100 q)"
proof (induction xs arbitrary: ps)
  case Nil
  then show ?case by simp
next
  case (Cons x xs)
  obtain s' c' where x: "x = (s', c')" by (cases x)
  from Cons.prems(1) obtain q' ps' where
    q': "py_truediv c' t = Inr q'" and ps': "percentages t xs = Inr ps'" and
    ps: "ps = (s', c', float_mul_100 q') # ps'"
    unfolding x by (auto split: sum.splits)
  show ?case
  proof (cases "(s, c, p) = (s', c', float_mul_100 q')")
    case True
    with q' x show ?thesis by auto
  next
    case False
    with Cons.prems(2) ps have "(s, c, p) \<in> set ps'" by auto
    with Cons.IH [OF ps'] show ?thesis by auto
  qed
qed

lemma set_most_common: "set (most_common n m) \<subseteq> set m"
  unfolding most_common_def using set_take_subset [of "nat n" "sort_key (\<lambda>(k, c). - c) m"] by simp

lemma counter_incr_pos:
  "\<forall>(k, c) \<in> set m. 1 \<le> c \<Longrightarrow> \<forall>(k, c) \<in> set (counter_incr w m). 1 \<le> c"
  by (induction m) (auto split: if_splits)

lemma count_states_pos:
  "count_states f rows m = Inr m' \<Longrightarrow> \<forall>(k, c) \<in> set m. 1 \<le> c \<Longrightarrow> \<forall>(k, c) \<in> set m'. 1 \<le> c"
proof (induction rows arbitrary: m)
  case Nil
  then show ?case by simp
next
  case (Cons row rows)
  show ?case
  proof (cases "row = []")
    case True
    with Cons show ?thesis by simp
  next
    case False
    with Cons.prems(1) obtain state where
      st: "row_state (dictreader_row f row) = Inr state" and
      rest: "count_states f rows (if state \<noteq> [] then counter_incr state m else m) = Inr m'"
      by (auto split: sum.splits)
    have "\<forall>(k, c) \<in> set (if state \<noteq> [] then counter_incr state m else m). 1 \<le> c"
      using Cons.prems(2) counter_incr_pos [of m state] by simp
    with Cons.IH [OF rest] show ?thesis .
  qed
qed

lemma sum_counts_pos:
  "m \<noteq> [] \<Longrightarrow> \<forall>(k, c) \<in> set m. (1::int) \<le> c \<Longrightarrow> 1 \<le> sum_list (map snd m)"
proof (induction m)
  case Nil
  then show ?case by simp
next
  case (Cons a m)
  obtain k c where a: "a = (k, c)" by (cases a)
  have "0 \<le> sum_list (map snd m)"
    using Cons.prems(2) by (intro sum_list_nonneg) auto
  moreover have "1 \<le> c" using Cons.prems(2) a by simp
  ultimately show ?case using a by simp
qed

lemma count_states_exn: "count_states f rows m = Inl e \<Longrightarrow> e = AttributeError"
  by (induction rows arbitrary: m) (auto simp: row_state_def split: if_splits sum.splits option.splits)

text \<open>
  C1, as the code has it. When the normalised header row lacks \<^verbatim>\<open>State\<close>,
  \<^verbatim>\<open>get_top_10_states\<close> logs the error and returns the empty list, and
  \<^verbatim>\<open>process_csv_file\<close> still opens the output file and writes the four head lines: the
  report has an empty body (no file only when the output file cannot be opened).
\<close>

theorem schema_failure_head_only_report:
  assumes "lit ''State'' \<notin> set (map normalize_col header)"
  shows "get_top_10_states (Some (header # rows)) =
           ([], [Error_csv_missing_state (map normalize_col header)]) \<and>
         written (process_csv_file out_ok (Some (header # rows))) =
           (if out_ok then Some csv_report_head else None)"
  using assms by (simp add: get_top_10_states_def get_top_10_states_try_def process_csv_file_def)

lemmas str_eval = lit_def normalize_col_def str_strip_def str_remove_nbsp_def py_isspace_def nbsp_def

lemmas csv_eval = get_top_10_states_def get_top_10_states_try_def row_state_def dictreader_row_def
  most_common_def py_truediv_def map_add_def

text \<open>
  C1, as the code has it, at the header \<^verbatim>\<open>state_name\<close>.
\<close>

theorem schema_failure_head_only_report_witness:
  "lit ''State'' \<notin> set (map normalize_col [lit ''state_name'']) \<and>
   get_top_10_states (Some [[lit ''state_name''], [lit ''TX'']]) =
     ([], [Error_csv_missing_state [lit ''state_name'']]) \<and>
   written (process_csv_file True (Some [[lit ''state_name''], [lit ''TX'']])) = Some csv_report_head"
proof -
  have n: "normalize_col (lit ''state_name'') = lit ''state_name''"
    by (simp add: str_eval)
  have h: "lit ''State'' \<notin> set (map normalize_col [lit ''state_name''])"
    by (simp add: n) (simp add: lit_def)
  show ?thesis
    using h schema_failure_head_only_report [OF h, of "[[lit ''TX'']]" True] by (simp add: n)
qed

text \<open>
  C1 as stated fails: with the header \<^verbatim>\<open>state_name\<close> the normalised headers do not
  contain \<^verbatim>\<open>State\<close>, and the run writes an output file holding the four head lines.
\<close>

theorem schema_failure_writes_file_counterexample:
  "lit ''State'' \<notin> set (map normalize_col [lit ''state_name'']) \<and>
   written (process_csv_file True (Some [[lit ''state_name''], [lit ''TX'']])) = Some csv_report_head"
proof -
  have n: "normalize_col (lit ''state_name'') = lit ''state_name''"
    by (simp add: str_eval)
  have h: "lit ''State'' \<noteq> lit ''state_name''"
    by (simp add: lit_def)
  show ?thesis
    using h by (simp add: n process_csv_file_def get_top_10_states_def get_top_10_states_try_def)
qed

subsection \<open>Rounding\<close>

lemma round_half_even_error: "\<bar>of_int (round_half_even x) - x\<bar> \<le> 1 / 2"
proof -
  define f where "f = \<lfloor>x\<rfloor>"
  define g where "g = \<lfloor>2 * x\<rfloor>"
  have f1: "of_int f \<le> x" and f2: "x < of_int f + 1"
    unfolding f_def by linarith+
  have g1: "of_int g \<le> 2 * x" and g2: "2 * x < of_int g + 1"
    unfolding g_def by linarith+
  have "(of_int g :: rat) < of_int (2 * f + 2)" using g1 f2 by simp
  then have gu: "g < 2 * f + 2" by (simp only: of_int_less_iff)
  have "(of_int (2 * f) :: rat) < of_int (g + 1)" using g2 f1 by simp
  then have gl: "2 * f < g + 1" by (simp only: of_int_less_iff)
  consider "g = 2 * f" | "g = 2 * f + 1" using gu gl by linarith
  then show ?thesis
  proof cases
    case 1
    then have "round_half_even x = f"
      by (simp add: round_half_even_def Let_def f_def g_def)
    moreover have "x - of_int f < 1 / 2" using g2 1 by simp
    ultimately show ?thesis using f1 by simp
  next
    case 2
    then have r: "round_half_even x = f \<and> of_int g = 2 * x \<or> round_half_even x = f + 1"
      by (auto simp: round_half_even_def Let_def f_def g_def)
    have h: "of_int f + 1 / 2 \<le> x" using g1 2 by simp
    from r show ?thesis
    proof
      assume "round_half_even x = f \<and> of_int g = 2 * x"
      with 2 show ?thesis by simp
    next
      assume "round_half_even x = f + 1"
      with h f2 show ?thesis by simp
    qed
  qed
qed

lemma round_half_even_nonneg: "0 \<le> x \<Longrightarrow> 0 \<le> round_half_even x"
proof -
  assume "0 \<le> x"
  then have "0 \<le> \<lfloor>x\<rfloor>" by simp
  then show ?thesis by (auto simp: round_half_even_def Let_def)
qed

lemma binade_rise:
  "binade fuel x e \<le> e \<or> (\<exists>j. binade fuel x e = e + int j \<and> 2 ^ j \<le> x)"
proof (induction fuel arbitrary: x e)
  case 0
  then show ?case by simp
next
  case (Suc fuel)
  show ?case
  proof (cases "x < 1 \<and> - 1022 < e")
    case True
    then have b: "binade (Suc fuel) x e = binade fuel (x * 2) (e - 1)" by simp
    from Suc [of "x * 2" "e - 1"] show ?thesis
    proof
      assume "binade fuel (x * 2) (e - 1) \<le> e - 1"
      with b show ?thesis by simp
    next
      assume "\<exists>j. binade fuel (x * 2) (e - 1) = e - 1 + int j \<and> 2 ^ j \<le> x * 2"
      then obtain j where j: "binade fuel (x * 2) (e - 1) = e - 1 + int j" "2 ^ j \<le> x * 2"
        by blast
      show ?thesis
      proof (cases j)
        case 0
        with j b show ?thesis by simp
      next
        case (Suc i)
        with j have "binade (Suc fuel) x e = e + int i" "2 ^ i \<le> x"
          using b by simp_all
        then show ?thesis by blast
      qed
    qed
  next
    case False
    show ?thesis
    proof (cases "2 \<le> x")
      case two: True
      with False have b: "binade (Suc fuel) x e = binade fuel (x / 2) (e + 1)" by auto
      from Suc [of "x / 2" "e + 1"] show ?thesis
      proof
        assume "binade fuel (x / 2) (e + 1) \<le> e + 1"
        then consider "binade fuel (x / 2) (e + 1) \<le> e" | "binade fuel (x / 2) (e + 1) = e + int 1"
          by fastforce
        then show ?thesis
        proof cases
          case 1
          with b show ?thesis by simp
        next
          case 2
          with b two have "binade (Suc fuel) x e = e + int 1 \<and> 2 ^ 1 \<le> x" by simp
          then show ?thesis by blast
        qed
      next
        assume "\<exists>j. binade fuel (x / 2) (e + 1) = e + 1 + int j \<and> 2 ^ j \<le> x / 2"
        then obtain j where j: "binade fuel (x / 2) (e + 1) = e + 1 + int j" "2 ^ j \<le> x / 2"
          by blast
        then have "binade (Suc fuel) x e = e + int (Suc j)" "2 ^ Suc j \<le> x"
          using b by simp_all
        then show ?thesis by blast
      qed
    next
      case False
      with \<open>\<not> (x < 1 \<and> - 1022 < e)\<close> show ?thesis by auto
    qed
  qed
qed

lemma binade_below:
  assumes "x < 2 ^ J" and "0 < J"
  shows "binade fuel x 0 < int J"
proof -
  from binade_rise [of fuel x 0] show ?thesis
  proof
    assume "binade fuel x 0 \<le> 0"
    with assms(2) show ?thesis by simp
  next
    assume "\<exists>j. binade fuel x 0 = 0 + int j \<and> 2 ^ j \<le> x"
    then obtain j where j: "binade fuel x 0 = int j" "2 ^ j \<le> x" by auto
    from j(2) assms(1) have "(2::rat) ^ j < 2 ^ J" by (rule le_less_trans)
    then have "j < J" by (simp add: power_strict_increasing_iff)
    with j show ?thesis by simp
  qed
qed

lemma round_double_small:
  assumes "0 \<le> x" and "x < 2 ^ J" and "0 < J" and "J \<le> 52"
  shows "0 \<le> round_double x \<and> \<bar>round_double x - x\<bar> \<le> 1 / 2 ^ (54 - J)"
proof (cases "x = 0")
  case True
  then show ?thesis by (simp add: round_double_def)
next
  case False
  define e where "e = binade 1024 \<bar>x\<bar> 0"
  define k where "k = nat (52 - e)"
  have "e < int J" using binade_below [of "\<bar>x\<bar>" J 1024] assms by (simp add: e_def)
  with assms(4) have e52: "\<not> 52 \<le> e" and k: "53 - J \<le> k" by (simp_all add: k_def)
  have rd: "round_double x = of_int (round_half_even (x * 2 ^ k)) / 2 ^ k"
    using False e52 by (simp add: round_double_def Let_def e_def k_def)
  have "0 \<le> round_half_even (x * 2 ^ k)"
    using assms(1) by (intro round_half_even_nonneg) simp
  then have nonneg: "0 \<le> round_double x" unfolding rd by simp
  have "round_double x - x = (of_int (round_half_even (x * 2 ^ k)) - x * 2 ^ k) / 2 ^ k"
    unfolding rd by (simp add: field_simps)
  then have "\<bar>round_double x - x\<bar> = \<bar>of_int (round_half_even (x * 2 ^ k)) - x * 2 ^ k\<bar> / 2 ^ k"
    by (simp add: abs_divide)
  also have "\<dots> \<le> (1 / 2) / 2 ^ k"
    using round_half_even_error [of "x * 2 ^ k"] by (intro divide_right_mono) simp_all
  also have "\<dots> = 1 / 2 ^ Suc k" by simp
  also have "\<dots> \<le> 1 / 2 ^ (54 - J)"
  proof -
    have "54 - J \<le> Suc k" using k assms(4) by simp
    then have "(2::rat) ^ (54 - J) \<le> 2 ^ Suc k" by (intro power_increasing) simp_all
    then show ?thesis by (intro divide_left_mono) simp_all
  qed
  finally show ?thesis using nonneg by simp
qed


lemma truediv_of_counts:
  assumes "1 \<le> c" and "c \<le> t"
  shows "py_truediv c t = Inr (Finite (round_double (of_int c / of_int t))) \<and>
         0 \<le> round_double (of_int c / of_int t) \<and>
         \<bar>round_double (of_int c / of_int t) - of_int c / of_int t\<bar> \<le> 1 / 2 ^ 53"
proof -
  define x :: rat where "x = of_int c / of_int t"
  have x: "0 \<le> x" "x \<le> 1" using assms by (simp_all add: x_def)
  then have "x < 2 ^ 1" by simp
  from round_double_small [OF x(1) this] have
    r: "0 \<le> round_double x" "\<bar>round_double x - x\<bar> \<le> 1 / 2 ^ 53"
    by simp_all
  have "round_double x - x \<le> 1 / 2 ^ 53" using r(2) by linarith
  moreover have "(1::rat) / 2 ^ 53 \<le> 1" by simp
  ultimately have "round_double x \<le> 2" using x(2) by linarith
  moreover have "(2::rat) < 2 ^ 1024"
    using power_strict_increasing [of 1 1024 "2::rat"] by simp
  ultimately have "\<not> 2 ^ 1024 \<le> \<bar>round_double x\<bar>" using r(1) by simp
  moreover have "\<not> ((c < 0) \<noteq> (t < 0))" and "t \<noteq> 0" using assms by auto
  ultimately have "py_truediv c t = Inr (Finite (round_double x))"
    by (simp add: py_truediv_def to_float_def Let_def x_def)
  with r show ?thesis by (simp add: x_def)
qed

lemma mul_100_of_quotient:
  assumes "0 \<le> q" and "q \<le> 1 + 1 / 2 ^ 53"
  shows "float_mul_100 (Finite q) = Finite (round_double (q * 100)) \<and>
         \<bar>round_double (q * 100) - q * 100\<bar> \<le> 1 / 2 ^ 47"
proof -
  have "q * 100 \<le> (1 + 1 / 2 ^ 53) * 100" using assms(2) by simp
  also have "\<dots> < 2 ^ 7" by simp
  finally have lt: "q * 100 < 2 ^ 7" .
  have ge: "0 \<le> q * 100" using assms(1) by simp
  from round_double_small [OF ge lt] have
    r: "0 \<le> round_double (q * 100)" "\<bar>round_double (q * 100) - q * 100\<bar> \<le> 1 / 2 ^ 47"
    by simp_all
  have "round_double (q * 100) - q * 100 \<le> 1 / 2 ^ 47" using r(2) by linarith
  moreover have "(1::rat) / 2 ^ 47 \<le> 1" and "(2::rat) ^ 7 + 1 \<le> 2 ^ 8" by simp_all
  ultimately have "round_double (q * 100) \<le> 2 ^ 8" using lt by linarith
  moreover have "(2::rat) ^ 8 < 2 ^ 1024"
    by (rule power_strict_increasing) simp_all
  ultimately have "\<not> 2 ^ 1024 \<le> \<bar>round_double (q * 100)\<bar>" using r(1) by simp
  moreover have "\<not> q < 0" using assms(1) by simp
  ultimately have "float_mul_100 (Finite q) = Finite (round_double (q * 100))"
    by (simp add: to_float_def Let_def)
  with r(2) show ?thesis by simp
qed

lemma percentage_of_counts:
  assumes "1 \<le> c" and "c \<le> t" and "py_truediv c t = Inr q"
  shows "float_mul_100 q = Finite (round_double (round_double (of_int c / of_int t) * 100)) \<and>
         \<bar>round_double (round_double (of_int c / of_int t) * 100) - 100 * of_int c / of_int t\<bar>
           \<le> 1 / 2 ^ 45"
proof -
  define x :: rat where "x = of_int c / of_int t"
  define r where "r = round_double x"
  from truediv_of_counts [OF assms(1,2)] assms(3) have
    q: "q = Finite r" and r0: "0 \<le> r" and re: "\<bar>r - x\<bar> \<le> 1 / 2 ^ 53"
    by (simp_all add: x_def r_def)
  have "x \<le> 1" using assms by (simp add: x_def)
  moreover have "r - x \<le> 1 / 2 ^ 53" using re by linarith
  ultimately have r1: "r \<le> 1 + 1 / 2 ^ 53" by linarith
  from mul_100_of_quotient [OF r0 r1] have
    m: "float_mul_100 (Finite r) = Finite (round_double (r * 100))" and
    me: "\<bar>round_double (r * 100) - r * 100\<bar> \<le> 1 / 2 ^ 47"
    by simp_all
  have "round_double (r * 100) - 100 * x = (round_double (r * 100) - r * 100) + 100 * (r - x)"
    by (simp add: algebra_simps)
  then have "\<bar>round_double (r * 100) - 100 * x\<bar> \<le>
      \<bar>round_double (r * 100) - r * 100\<bar> + \<bar>100 * (r - x)\<bar>"
    by (simp only: abs_triangle_ineq)
  also have "\<bar>100 * (r - x)\<bar> = 100 * \<bar>r - x\<bar>"
    using abs_mult [of "100::rat" "r - x"] by (simp only: abs_numeral)
  finally have "\<bar>round_double (r * 100) - 100 * x\<bar> \<le>
      \<bar>round_double (r * 100) - r * 100\<bar> + 100 * \<bar>r - x\<bar>" .
  also have "\<dots> \<le> 1 / 2 ^ 47 + 100 * (1 / 2 ^ 53)"
    using me re by (intro add_mono mult_left_mono) simp_all
  also have "\<dots> \<le> 1 / 2 ^ 45" by simp
  finally have "\<bar>round_double (r * 100) - 100 * x\<bar> \<le> 1 / 2 ^ 45" .
  with m q show ?thesis by (simp add: x_def r_def)
qed

lemma count_le_total:
  "(s, c) \<in> set m \<Longrightarrow> \<forall>(k, c) \<in> set m. (1::int) \<le> c \<Longrightarrow> c \<le> sum_list (map snd m)"
proof (induction m)
  case Nil
  then show ?case by simp
next
  case (Cons a m)
  obtain k c' where a: "a = (k, c')" by (cases a)
  have rest: "0 \<le> sum_list (map snd m)"
    using Cons.prems(2) by (intro sum_list_nonneg) auto
  show ?case
  proof (cases "(s, c) = a")
    case True
    with a rest show ?thesis by auto
  next
    case False
    with Cons.prems(1) have "(s, c) \<in> set m" by simp
    with Cons.IH Cons.prems(2) have "c \<le> sum_list (map snd m)" by simp
    moreover have "1 \<le> c'" using Cons.prems(2) a by simp
    ultimately show ?thesis using a by simp
  qed
qed

text \<open>
  C2, as the code has it. Every entry \<open>(state, count, percentage)\<close> returned by
  \<^verbatim>\<open>get_top_10_states\<close> is an entry of the accumulated mapping, and its percentage is
  \<^verbatim>\<open>(count / total) * 100\<close> in binary64 arithmetic: the quotient rounded to the nearest
  float, times 100, rounded again, where \<open>total\<close> is the sum of the counts of every key of
  the mapping (not of the ten emitted), which is not zero. It is within \<open>2\<^bsup>-45\<^esup>\<close> of the
  exact \<open>100 * count / total\<close>, and need not be equal to it.
\<close>

theorem percentage_rounded_over_all_states:
  assumes "(state, count, percentage) \<in> set (fst (get_top_10_states file))"
  shows "\<exists>header rows state_counts.
           file = Some (header # rows) \<and>
           count_states (map normalize_col header) rows [] = Inr state_counts \<and>
           (state, count) \<in> set state_counts \<and>
           sum_list (map snd state_counts) \<noteq> 0 \<and>
           percentage =
             Finite (round_double
               (round_double (of_int count / of_int (sum_list (map snd state_counts))) * 100)) \<and>
           \<bar>round_double
               (round_double (of_int count / of_int (sum_list (map snd state_counts))) * 100)
             - 100 * of_int count / of_int (sum_list (map snd state_counts))\<bar> \<le> 1 / 2 ^ 45"
proof -
  from assms obtain header rows where f: "file = Some (header # rows)"
    by (auto simp: get_top_10_states_def get_top_10_states_try_def split: option.splits list.splits)
  let ?fs = "map normalize_col header"
  from assms f have st: "lit ''State'' \<in> set ?fs"
    by (auto simp: get_top_10_states_def get_top_10_states_try_def Let_def split: if_splits)
  from assms f st obtain m where m: "count_states ?fs rows [] = Inr m"
    by (cases "count_states ?fs rows []")
       (auto simp: get_top_10_states_def get_top_10_states_try_def Let_def)
  from assms f st m have ne: "m \<noteq> []"
    by (auto simp: get_top_10_states_def get_top_10_states_try_def Let_def split: if_splits)
  have pos: "\<forall>(k, c) \<in> set m. 1 \<le> c"
    using count_states_pos [OF m] by simp
  let ?t = "sum_list (map snd m)"
  have t: "?t \<noteq> 0" using sum_counts_pos [OF ne pos] by simp
  from assms f st m ne obtain ps where
    ps: "percentages ?t (most_common 10 m) = Inr ps" and
    res: "fst (get_top_10_states file) = ps"
    by (cases "percentages ?t (most_common 10 m)")
       (auto simp: get_top_10_states_def get_top_10_states_try_def Let_def)
  from assms res have "(state, count, percentage) \<in> set ps" by simp
  from percentages_mem [OF ps this] obtain q where
    mc: "(state, count) \<in> set (most_common 10 m)" and
    q: "py_truediv count ?t = Inr q" and p: "percentage = float_mul_100 q"
    by blast
  from mc have mem: "(state, count) \<in> set m" using set_most_common by fastforce
  with pos have c1: "1 \<le> count" by auto
  have ct: "count \<le> ?t" using count_le_total [OF mem pos] .
  from percentage_of_counts [OF c1 ct q] p f m t mem show ?thesis by blast
qed

lemma binade_numeral:
  "binade (numeral k) x e =
     (if x < 1 \<and> - 1022 < e then binade (pred_numeral k) (x * 2) (e - 1)
      else if 2 \<le> x then binade (pred_numeral k) (x / 2) (e + 1)
      else e)"
  by (simp add: numeral_eq_Suc)

lemma floor_rat_numeral_divide:
  "\<lfloor>numeral a / numeral b :: rat\<rfloor> = numeral a div numeral b"
  using floor_divide_of_int_eq [of "numeral a" "numeral b", where ?'a = rat] by simp

lemmas float_eval = py_truediv_def to_float_def round_double_def round_half_even_def
  binade_numeral Let_def floor_rat_numeral_divide

text \<open>
  C2, as the code has it, on a file with eleven states: the denominator is 12, the count
  of all rows, while the ten emitted entries sum to 11; 2 of 12 gives 16.666666666666664.
\<close>

theorem percentage_rounded_over_all_states_witness:
  "(lit ''A'', 2, Finite (2345624805922133 / 140737488355328))
     \<in> set (fst (get_top_10_states (Some states_11))) \<and>
   (\<exists>header rows state_counts.
      Some states_11 = Some (header # rows) \<and>
      count_states (map normalize_col header) rows [] = Inr state_counts \<and>
      (lit ''A'', 2) \<in> set state_counts \<and>
      sum_list (map snd state_counts) \<noteq> 0 \<and>
      Finite (2345624805922133 / 140737488355328) =
        Finite (round_double
          (round_double (of_int 2 / of_int (sum_list (map snd state_counts))) * 100)) \<and>
      \<bar>round_double
          (round_double (of_int 2 / of_int (sum_list (map snd state_counts))) * 100)
        - 100 * of_int 2 / of_int (sum_list (map snd state_counts))\<bar> \<le> 1 / 2 ^ 45)"
proof -
  have r: "fst (get_top_10_states (Some states_11)) =
     [(lit ''A'', 2, Finite (2345624805922133 / 140737488355328)),
      (lit ''B'', 1, Finite (2345624805922133 / 281474976710656)),
      (lit ''C'', 1, Finite (2345624805922133 / 281474976710656)),
      (lit ''D'', 1, Finite (2345624805922133 / 281474976710656)),
      (lit ''E'', 1, Finite (2345624805922133 / 281474976710656)),
      (lit ''F'', 1, Finite (2345624805922133 / 281474976710656)),
      (lit ''G'', 1, Finite (2345624805922133 / 281474976710656)),
      (lit ''H'', 1, Finite (2345624805922133 / 281474976710656)),
      (lit ''I'', 1, Finite (2345624805922133 / 281474976710656)),
      (lit ''J'', 1, Finite (2345624805922133 / 281474976710656))]"
    by (simp add: states_11_def csv_eval str_eval float_eval)
  have h: "(lit ''A'', 2, Finite (2345624805922133 / 140737488355328))
     \<in> set (fst (get_top_10_states (Some states_11)))"
    unfolding r by simp
  from percentage_rounded_over_all_states [OF h] h show ?thesis
    by (simp only: of_int_numeral)
qed

text \<open>
  C2 as stated fails: on a file of 25 rows with state A seven times the code returns
  \<^verbatim>\<open>28.000000000000004\<close> for A, the float \<open>7881299347898369 / 2\<^bsup>48\<^esup>\<close>, and not
  \<open>100 * 7 / 25 = 28\<close>.
\<close>

theorem percentage_not_exact_counterexample:
  "fst (get_top_10_states (Some seven_of_25)) =
     [(lit ''B'', 18, Finite 72),
      (lit ''A'', 7, Finite (7881299347898369 / 281474976710656))] \<and>
   Finite (7881299347898369 / 281474976710656) \<noteq> Finite (100 * 7 / 25)"
  by (simp add: seven_of_25_def csv_eval str_eval float_eval)

text \<open>
  C10. The body of \<^verbatim>\<open>get_top_10_states\<close> never raises \<^verbatim>\<open>ZeroDivisionError\<close>: an
  empty mapping returns before the division, every count of the mapping is at least 1,
  and so the total of a non-empty mapping is at least 1.
\<close>

theorem percentage_never_divides_by_zero:
  "get_top_10_states_try file \<noteq> Inl ZeroDivisionError \<and>
   (\<forall>header rows state_counts.
      file = Some (header # rows) \<and> lit ''State'' \<in> set (map normalize_col header) \<and>
      count_states (map normalize_col header) rows [] = Inr state_counts \<longrightarrow>
        (state_counts = [] \<longrightarrow> get_top_10_states_try file = Inr ([], [Error_no_state_data])) \<and>
        (\<forall>(state, count) \<in> set state_counts. 1 \<le> count) \<and>
        (state_counts \<noteq> [] \<longrightarrow> 1 \<le> sum_list (map snd state_counts)))"
proof (intro conjI allI impI)
  show "get_top_10_states_try file \<noteq> Inl ZeroDivisionError"
  proof (cases "file")
    case None
    then show ?thesis by (simp add: get_top_10_states_try_def)
  next
    case (Some rs)
    show ?thesis
    proof (cases rs)
      case Nil
      with Some show ?thesis by (simp add: get_top_10_states_try_def)
    next
      case (Cons header rows)
      let ?fs = "map normalize_col header"
      show ?thesis
      proof (cases "count_states ?fs rows []")
        case (Inl e)
        then have "e = AttributeError" by (rule count_states_exn)
        with Some Cons Inl show ?thesis
          by (simp add: get_top_10_states_try_def Let_def)
      next
        case (Inr m)
        have pos: "\<forall>(k, c) \<in> set m. 1 \<le> c"
          using count_states_pos [OF Inr] by simp
        show ?thesis
        proof (cases "m = []")
          case True
          with Some Cons Inr show ?thesis
            by (simp add: get_top_10_states_try_def Let_def)
        next
          case False
          have "sum_list (map snd m) \<noteq> 0"
            using sum_counts_pos [OF False pos] by simp
          then have "percentages (sum_list (map snd m)) (most_common 10 m) \<noteq> Inl ZeroDivisionError"
            by (rule percentages_total_nonzero)
          with Some Cons Inr False show ?thesis
            by (auto simp: get_top_10_states_try_def Let_def split: sum.splits)
        qed
      qed
    qed
  qed
next
  fix header rows state_counts
  assume a: "file = Some (header # rows) \<and> lit ''State'' \<in> set (map normalize_col header) \<and>
      count_states (map normalize_col header) rows [] = Inr state_counts"
  then have m: "count_states (map normalize_col header) rows [] = Inr state_counts" by simp
  show pos: "\<forall>(state, count) \<in> set state_counts. 1 \<le> count"
    using count_states_pos [OF m] by simp
  { assume "state_counts \<noteq> []"
    then show "1 \<le> sum_list (map snd state_counts)"
      using pos by (rule sum_counts_pos) }
  { assume "state_counts = []"
    with a show "get_top_10_states_try file = Inr ([], [Error_no_state_data])"
      by (simp add: get_top_10_states_try_def Let_def) }
qed


text \<open>
  C10 on the rows TX, TX, CA.
\<close>

theorem percentage_never_divides_by_zero_witness:
  "get_top_10_states_try (Some [[lit ''State''], [lit ''TX''], [lit ''TX''], [lit ''CA'']])
     \<noteq> Inl ZeroDivisionError \<and>
   count_states (map normalize_col [lit ''State'']) [[lit ''TX''], [lit ''TX''], [lit ''CA'']] [] =
     Inr [(lit ''TX'', 2), (lit ''CA'', 1)] \<and>
   1 \<le> sum_list (map snd [(lit ''TX'', 2 :: int), (lit ''CA'', 1)])"
proof -
  let ?rows = "[[lit ''TX''], [lit ''TX''], [lit ''CA'']]"
  have n: "normalize_col (lit ''State'') = lit ''State''"
    by (simp add: str_eval)
  have h: "lit ''State'' \<in> set (map normalize_col [lit ''State''])"
    by (simp add: n)
  have c: "count_states (map normalize_col [lit ''State'']) ?rows [] =
      Inr [(lit ''TX'', 2), (lit ''CA'', 1)]"
    by (simp add: csv_eval n) (simp add: lit_def str_strip_def py_isspace_def)
  from percentage_never_divides_by_zero [of "Some ([lit ''State''] # ?rows)"] h c
  have "get_top_10_states_try (Some ([lit ''State''] # ?rows)) \<noteq> Inl ZeroDivisionError"
    and "(\<forall>(state, count) \<in> set [(lit ''TX'', 2 :: int), (lit ''CA'', 1)]. 1 \<le> count) \<and>
         ([(lit ''TX'', 2 :: int), (lit ''CA'', 1)] \<noteq> [] \<longrightarrow>
            1 \<le> sum_list (map snd [(lit ''TX'', 2 :: int), (lit ''CA'', 1)]))"
    by blast+
  with c show ?thesis by simp
qed


section \<open>The ranking\<close>

lemma filter_take_prefix: "prefix (filter P (take k xs)) (filter P xs)"
proof -
  have "filter P xs = filter P (take k xs) @ filter P (drop k xs)"
    by (metis append_take_drop_id filter_append)
  then show ?thesis by (simp add: prefix_def)
qed

lemma counter_incr_keys:
  "map fst (counter_incr k m) = (if k \<in> set (map fst m) then map fst m else map fst m @ [k])"
  by (induction m) (fastforce simp: image_iff)+

text \<open>
  C3. For every mapping, every \<open>top_n\<close> and every value \<open>v\<close>, the emitted entries
  whose accumulated value is \<open>v\<close> are, in the order emitted, an initial part of the
  mapping's entries of value \<open>v\<close> in insertion order: ties keep the order of first
  insertion. Aggregation inserts a new key after all earlier keys and leaves the place of
  a known key. The ranking is a function of the mapping and \<open>top_n\<close>, so running it again
  gives the same list.
\<close>

theorem ranking_ties_in_insertion_order:
  "prefix (filter (\<lambda>(k, c). c = v) (most_common n m)) (filter (\<lambda>(k, c). c = v) m) \<and>
   map fst (counter_incr w m) = (if w \<in> set (map fst m) then map fst m else map fst m @ [w])"
proof
  have eq: "(\<lambda>(k, c). c = v) = (\<lambda>y. (case y of (k :: 'a, c :: int) \<Rightarrow> - c) = - v)"
    by (auto simp: fun_eq_iff)
  have "filter (\<lambda>(k, c). c = v) (sort_key (\<lambda>(k, c). - c) m) = filter (\<lambda>(k, c). c = v) m"
    unfolding eq by (rule sort_key_stable)
  then show "prefix (filter (\<lambda>(k, c). c = v) (most_common n m)) (filter (\<lambda>(k, c). c = v) m)"
    unfolding most_common_def
    using filter_take_prefix [of "\<lambda>(k, c). c = v" "nat n" "sort_key (\<lambda>(k, c). - c) m"] by simp
next
  show "map fst (counter_incr w m) = (if w \<in> set (map fst m) then map fst m else map fst m @ [w])"
    by (rule counter_incr_keys)
qed

text \<open>
  C6. Every entry emitted by the ranking has an accumulated value at least that of every
  entry of the mapping that is not emitted.
\<close>

theorem top_n_dominates_rest:
  "\<forall>e \<in> set (most_common n m). \<forall>e' \<in> set m - set (most_common n m). snd e' \<le> snd e"
proof (intro ballI)
  fix e e'
  let ?f = "\<lambda>(k :: 'a, c :: int). - c"
  let ?xs = "sort_key ?f m"
  assume e: "e \<in> set (most_common n m)" and e': "e' \<in> set m - set (most_common n m)"
  have split: "?xs = take (nat n) ?xs @ drop (nat n) ?xs" by simp
  have "set m = set (take (nat n) ?xs) \<union> set (drop (nat n) ?xs)"
    by (metis set_append split set_sort)
  with e' have d: "e' \<in> set (drop (nat n) ?xs)"
    by (auto simp: most_common_def)
  have "sorted (map ?f (take (nat n) ?xs) @ map ?f (drop (nat n) ?xs))"
    by (metis map_append append_take_drop_id sorted_sort_key)
  then have "\<forall>x \<in> set (take (nat n) ?xs). \<forall>y \<in> set (drop (nat n) ?xs). ?f x \<le> ?f y"
    unfolding sorted_append by auto
  with e d have "?f e \<le> ?f e'" by (auto simp: most_common_def)
  then show "snd e' \<le> snd e" by (cases e; cases e') simp
qed

text \<open>
  C6 on a mapping with four keys and \<open>top_n = 2\<close>.
\<close>

theorem top_n_dominates_rest_witness:
  "(''b'', 5) \<in> set (most_common 2 [(''a'', 3), (''b'', 5), (''c'', 5), (''d'', 1)]) \<and>
   (''a'', 3) \<in> set [(''a'', 3), (''b'', 5), (''c'', 5), (''d'', 1)]
      - set (most_common 2 [(''a'', 3), (''b'', 5), (''c'', 5), (''d'', 1)]) \<and>
   snd (''a'', 3 :: int) \<le> snd (''b'', 5 :: int)"
proof -
  let ?m = "[(''a'', 3 :: int), (''b'', 5), (''c'', 5), (''d'', 1)]"
  have r: "most_common 2 ?m = [(''b'', 5), (''c'', 5)]"
    by (simp add: most_common_def)
  have a: "(''b'', 5) \<in> set (most_common 2 ?m)" unfolding r by simp
  have b: "(''a'', 3) \<in> set ?m - set (most_common 2 ?m)" unfolding r by simp
  from top_n_dominates_rest [of 2 ?m] a b have "snd (''a'', 3 :: int) \<le> snd (''b'', 5 :: int)"
    by blast
  with a b show ?thesis by blast
qed

section \<open>The text pipeline\<close>

text \<open>
  C8. On a file with fewer lines than \<open>skip_lines\<close>, \<^verbatim>\<open>count_top_words\<close> logs the
  error and returns the empty list; nothing is raised.
\<close>

theorem short_file_returns_empty:
  assumes "int (length lines) < skip_lines"
  shows "count_top_words U (Some lines) top_n skip_lines stop_line = ([], [Error_fewer_lines skip_lines])"
  using assms by (simp add: count_top_words_def count_top_words_try_def)

text \<open>
  C8 on a file of two lines with \<open>skip_lines = 3\<close>.
\<close>

theorem short_file_returns_empty_witness:
  "int (length [lit ''a b'', lit ''c'']) < 3 \<and>
   count_top_words ascii_db (Some [lit ''a b'', lit ''c'']) 50 3 666 = ([], [Error_fewer_lines 3])"
proof -
  have h: "int (length [lit ''a b'', lit ''c'']) < 3" by simp
  show ?thesis using h short_file_returns_empty [OF h] by simp
qed

lemma slice_range_bounds:
  assumes "0 \<le> stop" and "i \<in> set (slice_range n start stop)"
  shows "start \<le> int i \<and> int i < stop \<and> i < n"
  using assms by (auto simp: slice_range_def Let_def split: if_splits)

lemma py_slice_cong:
  assumes "0 \<le> stop" and "length ys = length xs"
    and "\<forall>i < length xs. start \<le> int i \<and> int i < stop \<longrightarrow> ys ! i = xs ! i"
  shows "py_slice ys start stop = py_slice xs start stop"
  unfolding py_slice_def using assms slice_range_bounds [OF assms(1), of _ "length xs" start]
  by auto

text \<open>
  C7, for a \<open>stop_line\<close> that is not negative. Every line the slice takes has its index
  in \<open>[skip_lines, stop_line)\<close>, and the lines outside that range contribute nothing:
  two files of the same length that agree on the range give the same result.
\<close>

theorem only_lines_in_range_are_tokenized:
  assumes "0 \<le> stop_line"
  shows "(\<forall>i \<in> set (slice_range (length lines) skip_lines stop_line).
            skip_lines \<le> int i \<and> int i < stop_line \<and> i < length lines) \<and>
         (\<forall>lines'. length lines' = length lines \<and>
            (\<forall>i < length lines. skip_lines \<le> int i \<and> int i < stop_line \<longrightarrow> lines' ! i = lines ! i) \<longrightarrow>
            count_top_words U (Some lines') top_n skip_lines stop_line =
            count_top_words U (Some lines) top_n skip_lines stop_line)"
proof (intro conjI)
  show "\<forall>i \<in> set (slice_range (length lines) skip_lines stop_line).
            skip_lines \<le> int i \<and> int i < stop_line \<and> i < length lines"
    using slice_range_bounds [OF assms] by blast
next
  show "\<forall>lines'. length lines' = length lines \<and>
            (\<forall>i < length lines. skip_lines \<le> int i \<and> int i < stop_line \<longrightarrow> lines' ! i = lines ! i) \<longrightarrow>
            count_top_words U (Some lines') top_n skip_lines stop_line =
            count_top_words U (Some lines) top_n skip_lines stop_line"
  proof (intro allI impI)
    fix lines'
    assume a: "length lines' = length lines \<and>
       (\<forall>i < length lines. skip_lines \<le> int i \<and> int i < stop_line \<longrightarrow> lines' ! i = lines ! i)"
    then have "py_slice lines' skip_lines stop_line = py_slice lines skip_lines stop_line"
      using py_slice_cong [OF assms, of lines' lines skip_lines] by blast
    with a show "count_top_words U (Some lines') top_n skip_lines stop_line =
        count_top_words U (Some lines) top_n skip_lines stop_line"
      by (simp add: count_top_words_def count_top_words_try_def)
  qed
qed

lemmas text_eval = count_top_words_def count_top_words_try_def py_slice_def slice_range_def
  ascii_db_def is_ascii_letter_def is_word_char_def counter_update_def most_common_def lit_def

text \<open>
  C7, for this range, on a file of three lines with the range \<open>[1, 2)\<close>.
\<close>

theorem only_lines_in_range_are_tokenized_witness:
  "(0::int) \<le> 2 \<and>
   slice_range (length [lit ''a b'' @ [10], lit ''c'' @ [10], lit ''d'']) 1 2 = [1] \<and>
   count_top_words ascii_db (Some [lit ''x'' @ [10], lit ''c'' @ [10], lit ''y'']) 50 1 2 =
   count_top_words ascii_db (Some [lit ''a b'' @ [10], lit ''c'' @ [10], lit ''d'']) 50 1 2"
proof -
  let ?L = "[lit ''a b'' @ [10], lit ''c'' @ [10], lit ''d'']"
  let ?L' = "[lit ''x'' @ [10], lit ''c'' @ [10], lit ''y'']"
  have h: "(0::int) \<le> 2" by simp
  have len: "length ?L' = length ?L" by simp
  have agree: "\<forall>i < length ?L. 1 \<le> int i \<and> int i < 2 \<longrightarrow> ?L' ! i = ?L ! i"
  proof (intro allI impI)
    fix i
    assume "i < length ?L" and "1 \<le> int i \<and> int i < 2"
    then have "i = 1" by linarith
    then show "?L' ! i = ?L ! i" by simp
  qed
  have r: "slice_range (length ?L) 1 2 = [1]"
    by (simp add: slice_range_def numeral_2_eq_2)
  from only_lines_in_range_are_tokenized [OF h, of ?L 1 ascii_db 50] len agree
  have "count_top_words ascii_db (Some ?L') 50 1 2 = count_top_words ascii_db (Some ?L) 50 1 2"
    by blast
  with h r show ?thesis by blast
qed

text \<open>
  C7 as stated fails for a negative \<open>stop_line\<close>, which the slice counts from the end:
  with \<open>skip_lines = 0\<close> and \<open>stop_line = -1\<close> the word of line 0 is counted, and 0 is not in
  \<open>[0, -1)\<close>.
\<close>

theorem negative_stop_line_counterexample:
  "fst (count_top_words ascii_db (Some [lit ''a'' @ [10], lit ''b'' @ [10]]) 50 0 (- 1)) =
     [(lit ''a'', 1)] \<and>
   slice_range (length [lit ''a'' @ [10], lit ''b'' @ [10]]) 0 (- 1) = [0] \<and>
   \<not> (int 0 < - 1)"
  by (simp add: text_eval)


section \<open>The Excel pipeline\<close>

lemma map_of_dict_set: "map_of (dict_set k v d) k' = (if k' = k then Some v else map_of d k')"
  by (induction d) auto


lemma map_of_update_highest_other:
  "k \<noteq> r \<Longrightarrow> map_of (update_highest r n c price d) k = map_of d k"
  by (auto simp: update_highest_def map_of_dict_set split: cell.splits option.splits)

lemma map_of_update_highest_valid:
  "py_truthy r \<Longrightarrow> py_truthy n \<Longrightarrow> py_truthy c \<Longrightarrow>
   map_of (update_highest r n c (CNum p) d) r = slot_rule (map_of d r) (n, c, p)"
  by (auto simp: update_highest_def slot_rule_def map_of_dict_set split: option.splits)

lemma update_highest_invalid:
  "\<not> (py_truthy r \<and> py_truthy n \<and> py_truthy c \<and> (\<exists>p. price = CNum p)) \<Longrightarrow>
   update_highest r n c price d = d"
  by (auto simp: update_highest_def split: cell.splits)

lemma observations_step:
  assumes "row_cells ri ni ci pri row = Some (r, n, c, price)"
  shows "foldl slot_rule (map_of d k) (observations k ri ni ci pri (row # rest)) =
         foldl slot_rule (map_of (update_highest r n c price d) k) (observations k ri ni ci pri rest)"
proof (cases "py_truthy r \<and> py_truthy n \<and> py_truthy c \<and> (\<exists>p. price = CNum p)")
  case False
  then have "update_highest r n c price d = d" by (rule update_highest_invalid)
  moreover from False assms
  have "observations k ri ni ci pri (row # rest) = observations k ri ni ci pri rest"
    by (auto split: cell.splits)
  ultimately show ?thesis by simp
next
  case True
  then obtain p where p: "price = CNum p" by blast
  show ?thesis
  proof (cases "r = k")
    case False
    then have "map_of (update_highest r n c price d) k = map_of d k"
      using map_of_update_highest_other [of k r] by simp
    with False assms p show ?thesis by simp
  next
    case same: True
    with True p have "map_of (update_highest r n c price d) k = slot_rule (map_of d k) (n, c, p)"
      using map_of_update_highest_valid [of r n c p d] by simp
    with same True assms p show ?thesis by simp
  qed
qed

lemma highest_loop_fold:
  assumes "highest_loop ri ni ci pri rows d0 = Inr d"
  shows "map_of d k = foldl slot_rule (map_of d0 k) (observations k ri ni ci pri rows)"
  using assms
proof (induction rows arbitrary: d0)
  case Nil
  then show ?case by simp
next
  case (Cons row rows)
  from Cons.prems obtain r n c price where
    cells: "row_cells ri ni ci pri row = Some (r, n, c, price)" and
    rest: "highest_loop ri ni ci pri rows (update_highest r n c price d0) = Inr d"
    by (auto split: option.splits)
  from Cons.IH [OF rest] observations_step [OF cells, of d0 k rows]
  show ?case by simp
qed

text \<open>
  C4. For every sequence of rows that the loop of \<^verbatim>\<open>find_highest_price_nsn\<close> runs
  through, the tuple stored for a rep_office is what the rule of the specification gives
  on the valid rows of that office, taken in order: the first valid observation fills the
  slot, a later one replaces the stored tuple if and only if its price is strictly
  greater, so that on a tie the earlier row stays. \<^verbatim>\<open>find_highest_price_nsn\<close> starts the
  loop on the empty dictionary.
\<close>

theorem extremum_slot_fold:
  assumes "highest_loop ri ni ci pri rows d0 = Inr d"
  shows "map_of d k = foldl slot_rule (map_of d0 k) (observations k ri ni ci pri rows)"
  using assms by (rule highest_loop_fold)

lemmas excel_eval = row_cells_def py_index_def update_highest_def lit_def

text \<open>
  C4 on the rows of office A at 10, 25 and 25, and office B at 5: the row at the first 25
  is stored for A.
\<close>

theorem extremum_slot_fold_witness:
  "highest_loop 2 1 3 4 office_rows [] =
     Inr [(CStr (lit ''A''), (CNum 2, CStr (lit ''y''), 25)),
          (CStr (lit ''B''), (CNum 3, CStr (lit ''z''), 5))] \<and>
   map_of [(CStr (lit ''A''), (CNum 2, CStr (lit ''y''), 25)),
           (CStr (lit ''B''), (CNum 3, CStr (lit ''z''), 5))] (CStr (lit ''A'')) =
     foldl slot_rule (map_of [] (CStr (lit ''A'')))
       (observations (CStr (lit ''A'')) 2 1 3 4 office_rows) \<and>
   observations (CStr (lit ''A'')) 2 1 3 4 office_rows =
     [(CNum 1, CStr (lit ''x''), 10), (CNum 2, CStr (lit ''y''), 25), (CNum 4, CStr (lit ''w''), 25)]"
proof -
  have l: "highest_loop 2 1 3 4 office_rows [] =
     Inr [(CStr (lit ''A''), (CNum 2, CStr (lit ''y''), 25)),
          (CStr (lit ''B''), (CNum 3, CStr (lit ''z''), 5))]"
    by (simp add: office_rows_def excel_eval)
  have ob: "observations (CStr (lit ''A'')) 2 1 3 4 office_rows =
     [(CNum 1, CStr (lit ''x''), 10), (CNum 2, CStr (lit ''y''), 25), (CNum 4, CStr (lit ''w''), 25)]"
    by (simp add: office_rows_def excel_eval)
  from l ob extremum_slot_fold [OF l, of "CStr (lit ''A'')"] show ?thesis
    by blast
qed

lemma slot_fold_Some:
  "\<exists>u. foldl slot_rule (Some t) obs = Some u \<and> (u = t \<or> u \<in> set obs) \<and>
       snd (snd t) \<le> snd (snd u) \<and> (\<forall>t' \<in> set obs. snd (snd t') \<le> snd (snd u))"
proof (induction obs arbitrary: t)
  case Nil
  then show ?case by simp
next
  case (Cons x obs)
  show ?case
  proof (cases "snd (snd t) < snd (snd x)")
    case True
    then have "foldl slot_rule (Some t) (x # obs) = foldl slot_rule (Some x) obs"
      by (simp add: slot_rule_def)
    with Cons.IH [of x] True show ?thesis by auto
  next
    case False
    then have "foldl slot_rule (Some t) (x # obs) = foldl slot_rule (Some t) obs"
      by (simp add: slot_rule_def)
    with Cons.IH [of t] False show ?thesis by auto
  qed
qed

text \<open>
  Hence the stored tuple of an office is one of its valid observations and has the
  highest price among them.
\<close>

lemma extremum_mode_stores_maximum:
  assumes "highest_loop ri ni ci pri rows [] = Inr d"
    and "observations k ri ni ci pri rows \<noteq> []"
  shows "\<exists>u \<in> set (observations k ri ni ci pri rows). map_of d k = Some u \<and>
           (\<forall>t' \<in> set (observations k ri ni ci pri rows). snd (snd t') \<le> snd (snd u))"
proof -
  obtain x xs where obs: "observations k ri ni ci pri rows = x # xs"
    using assms(2) by (cases "observations k ri ni ci pri rows") auto
  have "map_of d k = foldl slot_rule (Some x) xs"
    using highest_loop_fold [OF assms(1), of k] obs by (simp add: slot_rule_def)
  with slot_fold_Some [of x xs] obs show ?thesis by auto
qed









lemmas excel_file_eval = process_excel_file_def find_highest_price_nsn_def
  find_highest_price_nsn_try_def office_header_def rows_b_a_def workbook_b_a_def



text \<open>
  A rep_office that is a timedelta is a valid key of the mapping, and its line of the
  report raises \<^verbatim>\<open>TypeError\<close>: the file keeps the head lines and the lines before it,
  the exception leaves \<^verbatim>\<open>process_excel_file\<close>, and the last message is not logged.
\<close>

lemma report_cut_at_timedelta:
  "process_excel_file True
     (Some (office_header,
            [[CNum 1, CStr (lit ''A''), CStr (lit ''x''), CNum 10],
             [CNum 2, CDuration 1, CStr (lit ''y''), CNum 20],
             [CNum 3, CStr (lit ''B''), CStr (lit ''z''), CNum 5]])) =
     \<lparr>written = Some (excel_report_head @
         [Row_excel (CStr (lit ''A'')) (CNum 1) (CStr (lit ''x'')) 10]),
      raised = Some TypeError,
      logged = []\<rparr>"
  by (simp add: excel_file_eval excel_eval)

end
